theory Spec2Isabelle
  imports Complex_Main
begin

text \<open>
  A model of the page splitter: the parser of page selections (\<^verbatim>\<open>parsePageRanges\<close>), the
  extraction of one page (\<^verbatim>\<open>extractPage\<close>) and the generator that extracts the selected
  pages one by one and reports its progress (\<^verbatim>\<open>pdfProcessor\<close>), with the types they
  share (\<^verbatim>\<open>PageStatus\<close>, \<^verbatim>\<open>ProcessStage\<close>, \<^verbatim>\<open>PageResult\<close>,
  \<^verbatim>\<open>ProgressUpdate\<close>).
\<close>

section \<open>JavaScript strings and numbers\<close>

text \<open>
  A JavaScript string is a sequence of UTF-16 code units; a code unit is modelled by its
  number. \<open>js\<close> turns an Isabelle literal into such a string, so that the selection
  \<^verbatim>\<open>"1,3-5,8"\<close> is written \<open>js ''1,3-5,8''\<close>.
\<close>

type_synonym jsstring = "nat list"

definition js :: "string \<Rightarrow> jsstring" where
  "js s = map of_char s"

text \<open>
  White space is the same set of code units for \<^verbatim>\<open>String.prototype.trim\<close>, for
  the class \<^verbatim>\<open>\s\<close> of a regular expression and for the prefix that
  \<^verbatim>\<open>parseInt\<close> skips: WhiteSpace and LineTerminator of ECMAScript (TAB, LF, VT, FF, CR,
  SP, NBSP, U+1680, U+2000 to U+200A, LS, PS, U+202F, U+205F, U+3000, U+FEFF).
\<close>

definition isSpace :: "nat \<Rightarrow> bool" where
  "isSpace c \<longleftrightarrow>
     (9 \<le> c \<and> c \<le> 13) \<or> c = 32 \<or> c = 160 \<or> c = 5760 \<or> (8192 \<le> c \<and> c \<le> 8202) \<or>
     c = 8232 \<or> c = 8233 \<or> c = 8239 \<or> c = 8287 \<or> c = 12288 \<or> c = 65279"

definition isDigit :: "nat \<Rightarrow> bool" where
  "isDigit c \<longleftrightarrow> 48 \<le> c \<and> c \<le> 57"

abbreviation comma :: nat where "comma \<equiv> 44"
abbreviation hyphen :: nat where "hyphen \<equiv> 45"
abbreviation plus_sign :: nat where "plus_sign \<equiv> 43"

definition trim :: "jsstring \<Rightarrow> jsstring" where
  "trim s = rev (dropWhile isSpace (rev (dropWhile isSpace s)))"

definition includes_str :: "jsstring \<Rightarrow> nat \<Rightarrow> bool" where
  "includes_str s c \<longleftrightarrow> c \<in> set s"

text \<open>
  \<^verbatim>\<open>s.split(sep)\<close> for a separator of one code unit: the pieces between the
  separators, empty pieces included, so that a string with \<open>k\<close> separators gives
  \<open>k + 1\<close> pieces and the empty string gives one empty piece. \<open>cur\<close> holds the piece
  being read, last code unit first.
\<close>

fun split_from :: "nat \<Rightarrow> jsstring \<Rightarrow> jsstring \<Rightarrow> jsstring list" where
  "split_from sep cur [] = [rev cur]"
| "split_from sep cur (c # cs) =
     (if c = sep then rev cur # split_from sep [] cs else split_from sep (c # cur) cs)"

definition split :: "nat \<Rightarrow> jsstring \<Rightarrow> jsstring list" where
  "split sep s = split_from sep [] s"

text \<open>
  The regular expression \<^verbatim>\<open>/^[0-9,\-\s]+$/\<close>: at least one code unit, and every code
  unit a digit, a comma, a hyphen or white space.
\<close>

definition allowedChar :: "nat \<Rightarrow> bool" where
  "allowedChar c \<longleftrightarrow> isDigit c \<or> c = comma \<or> c = hyphen \<or> isSpace c"

definition test :: "jsstring \<Rightarrow> bool" where
  "test s \<longleftrightarrow> s \<noteq> [] \<and> list_all allowedChar s"

text \<open>
  The Number values that \<^verbatim>\<open>parseInt\<close> can return: \<open>NaN\<close>, an integer-valued
  double, or an infinity (a numeral of more than 308 digits). \<open>lt\<close> and \<open>gt\<close> are
  the operators \<^verbatim>\<open><\<close> and \<^verbatim>\<open>>\<close>: false whenever an operand is \<open>NaN\<close>.
\<close>

datatype number = NaN | NInf | Fin int | PInf

fun isNaN :: "number \<Rightarrow> bool" where
  "isNaN NaN = True"
| "isNaN _ = False"

fun lt :: "number \<Rightarrow> number \<Rightarrow> bool" where
  "lt (Fin a) (Fin b) = (a < b)"
| "lt NInf (Fin b) = True"
| "lt NInf PInf = True"
| "lt (Fin a) PInf = True"
| "lt _ _ = False"

definition gt :: "number \<Rightarrow> number \<Rightarrow> bool" where
  "gt a b = lt b a"

fun negate :: "number \<Rightarrow> number" where
  "negate NaN = NaN"
| "negate NInf = PInf"
| "negate (Fin a) = Fin (- a)"
| "negate PInf = NInf"

text \<open>
  The Number value of a natural number: the nearest double, ties to the even significand,
  and \<open>PInf\<close> from \<open>2 ^ 1024 - 2 ^ 970\<close> on. Below \<open>2 ^ 53\<close> it is the number itself;
  above, \<open>e\<close> binary digits are dropped to leave a significand \<open>q\<close> of 53 digits, the
  remainder \<open>r\<close> decides the direction. \<open>bitlen n\<close> is the number of binary digits of \<open>n\<close>.
\<close>

fun bitlen :: "nat \<Rightarrow> nat" where
  "bitlen n = (if n = 0 then 0 else Suc (bitlen (n div 2)))"

declare bitlen.simps [simp del]

definition toNumber :: "nat \<Rightarrow> number" where
  "toNumber n =
     (if n < 2 ^ 53 then Fin (int n)
      else
        let e = bitlen n - 53;
            q = n div 2 ^ e;
            r = n mod 2 ^ e;
            h = 2 ^ (e - 1);
            m = (if h < r \<or> (r = h \<and> odd q) then q + 1 else q)
        in if 2 ^ 1024 \<le> m * 2 ^ e then PInf else Fin (int (m * 2 ^ e)))"

definition digitsValue :: "jsstring \<Rightarrow> nat" where
  "digitsValue z = foldl (\<lambda>v c. 10 * v + (c - 48)) 0 z"

text \<open>
  \<^verbatim>\<open>parseInt(s, 10)\<close>: skip leading white space, take an optional sign, read the
  longest run of decimal digits and ignore whatever follows it; \<open>NaN\<close> when there is no
  digit. With radix 10 a prefix \<^verbatim>\<open>0x\<close> has no special meaning.
\<close>

definition parseInt :: "jsstring \<Rightarrow> number" where
  "parseInt s =
     (let t = dropWhile isSpace s;
          negative = (case t of [] \<Rightarrow> False | c # _ \<Rightarrow> c = hyphen);
          u = (case t of [] \<Rightarrow> [] | c # cs \<Rightarrow> if c = plus_sign \<or> c = hyphen then cs else t);
          z = takeWhile isDigit u
      in if z = [] then NaN
         else if negative then negate (toNumber (digitsValue z))
         else toNumber (digitsValue z))"

section \<open>The range parser\<close>

text \<open>
  The errors of the application are \<^verbatim>\<open>Error\<close> objects told apart by their message;
  each message is a constructor.
\<close>

datatype error =
    error_pageSelection_empty
  | error_pageSelection_invalidChars
  | error_pageSelection_invalidRangeFormat
  | error_pageSelection_invalidRangeOrder
  | error_pageSelection_invalidNumber
  | error_pageSelection_outOfBounds
  | error_pdf_load

text \<open>
  \<^verbatim>\<open>pageNumbers\<close> is a \<^verbatim>\<open>Set<number>\<close>: it keeps its elements in the order of their
  first insertion, and \<^verbatim>\<open>Array.from\<close> reads them in that order. It is modelled by the
  list of its elements in insertion order.
\<close>

definition add :: "int \<Rightarrow> int list \<Rightarrow> int list" where
  "add x pageNumbers = (if x \<in> set pageNumbers then pageNumbers else pageNumbers @ [x])"

text \<open>
  \<^verbatim>\<open>i++\<close> on a loop variable that holds the integer \<open>i\<close>: the Number value of
  \<open>i + 1\<close>. Up to \<open>2 ^ 53 - 1\<close> it is \<open>i + 1\<close>; from \<open>2 ^ 53\<close> on the sum is rounded,
  and the result can be \<open>i\<close> itself.
\<close>

definition increment :: "int \<Rightarrow> number" where
  "increment i =
     (if 0 \<le> i + 1 then toNumber (nat (i + 1)) else negate (toNumber (nat (- (i + 1)))))"

text \<open>
  \<^verbatim>\<open>for (let i = start; i <= end; i++) pageNumbers.add(i)\<close> for finite bounds. A call
  that never returns has the value \<open>None\<close>. On a Number \<^verbatim>\<open>i++\<close> never gives less
  than \<open>i\<close>. When it gives \<open>i\<close> itself while \<^verbatim>\<open>i <= end\<close> holds, the next iteration
  finds the same variable and the same set, and the loop never ends. When \<^verbatim>\<open>i++\<close>
  gives infinity or \<open>NaN\<close>, the test \<^verbatim>\<open>i <= end\<close> fails and the loop is left.
\<close>

function addRange :: "int \<Rightarrow> int \<Rightarrow> int list \<Rightarrow> int list option" where
  "addRange i e pageNumbers =
     (if i \<le> e then
        (case increment i of
           Fin j \<Rightarrow> if j \<le> i then None else addRange j e (add i pageNumbers)
         | NInf \<Rightarrow> None
         | _ \<Rightarrow> Some (add i pageNumbers))
      else Some pageNumbers)"
  by pat_completeness auto
termination
  by (relation "measure (\<lambda>(i, e, _). nat (e + 1 - i))") auto

declare addRange.simps [simp del]

text \<open>
  The loop on Number values. With a bound that is not finite the test \<^verbatim>\<open>i <= end\<close>
  either fails at once, and the set is left as it is, or holds for ever. The checks before
  the loop leave only finite bounds (lemma \<open>range_bounds_finite\<close> below).
\<close>

fun le :: "number \<Rightarrow> number \<Rightarrow> bool" where
  "le (Fin a) (Fin b) = (a \<le> b)"
| "le NInf (Fin b) = True"
| "le NInf PInf = True"
| "le NInf NInf = True"
| "le (Fin a) PInf = True"
| "le PInf PInf = True"
| "le _ _ = False"

fun forLoop :: "number \<Rightarrow> number \<Rightarrow> int list \<Rightarrow> int list option" where
  "forLoop (Fin a) (Fin b) pageNumbers = addRange a b pageNumbers"
| "forLoop start end pageNumbers = (if le start end then None else Some pageNumbers)"

text \<open>
  \<^verbatim>\<open>pageNumbers.add(pageNum)\<close> gets a Number value. The checks before it leave only
  finite ones (lemma \<open>page_finite\<close> below), so the second equation is never used by the
  parser.
\<close>

fun addNumber :: "number \<Rightarrow> int list \<Rightarrow> int list" where
  "addNumber (Fin p) pageNumbers = add p pageNumbers"
| "addNumber _ pageNumbers = pageNumbers"

text \<open>
  The body of the loop over the tokens: one token, already trimmed. The result is
  \<open>Some (Inl e)\<close> when the body throws \<open>e\<close>, \<open>Some (Inr s)\<close> when it ends with the page
  set \<open>s\<close>, and \<open>None\<close> when it never ends.
\<close>

definition processPart :: "int \<Rightarrow> jsstring \<Rightarrow> int list \<Rightarrow> (error + int list) option" where
  "processPart totalPages part pageNumbers =
     (if includes_str part hyphen then
        (case split hyphen part of
           [r0, r1] \<Rightarrow>
             if trim r0 = [] \<or> trim r1 = []
               then Some (Inl error_pageSelection_invalidRangeFormat)
             else
               let start = parseInt r0; end = parseInt r1
               in if isNaN start \<or> isNaN end
                    then Some (Inl error_pageSelection_invalidRangeFormat)
                  else if gt start end then Some (Inl error_pageSelection_invalidRangeOrder)
                  else if lt start (Fin 1) \<or> gt end (Fin totalPages)
                    then Some (Inl error_pageSelection_outOfBounds)
                  else map_option Inr (forLoop start end pageNumbers)
         | _ \<Rightarrow> Some (Inl error_pageSelection_invalidRangeFormat))
      else
        let pageNum = parseInt part
        in if isNaN pageNum then Some (Inl error_pageSelection_invalidNumber)
           else if lt pageNum (Fin 1) \<or> gt pageNum (Fin totalPages)
             then Some (Inl error_pageSelection_outOfBounds)
           else Some (Inr (addNumber pageNum pageNumbers)))"

text \<open>
  The loop over the tokens stops at the first token that throws, and never ends when the
  body never ends for a token.
\<close>

fun processParts :: "int \<Rightarrow> jsstring list \<Rightarrow> int list \<Rightarrow> (error + int list) option" where
  "processParts totalPages [] pageNumbers = Some (Inr pageNumbers)"
| "processParts totalPages (part # parts) pageNumbers =
     (case processPart totalPages part pageNumbers of
        None \<Rightarrow> None
      | Some (Inl e) \<Rightarrow> Some (Inl e)
      | Some (Inr pageNumbers') \<Rightarrow> processParts totalPages parts pageNumbers')"

text \<open>
  The parser: \<open>Some (Inl e)\<close> when it throws \<open>e\<close>, \<open>Some (Inr pages)\<close> when it returns
  \<open>pages\<close>, \<open>None\<close> when it never returns.
\<close>

definition parsePageRanges :: "jsstring \<Rightarrow> int \<Rightarrow> (error + int list) option" where
  "parsePageRanges selection totalPages =
     (if selection = [] \<or> trim selection = [] then Some (Inl error_pageSelection_empty)
      else if \<not> test selection then Some (Inl error_pageSelection_invalidChars)
      else
        (case processParts totalPages (map trim (split comma selection)) [] of
           None \<Rightarrow> None
         | Some (Inl e) \<Rightarrow> Some (Inl e)
         | Some (Inr pageNumbers) \<Rightarrow>
             if length pageNumbers = 0 then Some (Inl error_pageSelection_empty)
             else Some (Inr (sort pageNumbers))))"

section \<open>The extraction pipeline\<close>

datatype ProcessStage = QUEUED | ANALYZING | SPLITTING | DONE

datatype PageStatus = PROCESSING | OK | ERROR

type_synonym bytes = "nat list"

record PageResult =
  pageNumber :: int
  finalSize :: nat
  status :: PageStatus
  blob :: "bytes option"

text \<open>
  The argument of \<^verbatim>\<open>onProgress\<close>: a \<^verbatim>\<open>ProgressUpdate\<close> without its result, with
  the optional field \<^verbatim>\<open>totalPages\<close>. \<^verbatim>\<open>overallProgress\<close> is a double; its values
  here are rationals.
\<close>

record ProgressUpdate =
  stage :: ProcessStage
  overallProgress :: rat
  processedPages :: nat
  totalPages :: "nat option"

text \<open>
  The PDF engine (pdf-lib) is not part of the program. Its operations are the fields of
  \<open>pdflib\<close>; each returns \<open>None\<close> where the call throws. \<open>load\<close> is
  \<^verbatim>\<open>PDFDocument.load(fileBuffer, {ignoreEncryption: true})\<close>, \<open>create\<close> is
  \<^verbatim>\<open>PDFDocument.create()\<close>, \<open>copyPages target source indices\<close> is
  \<^verbatim>\<open>target.copyPages(source, indices)\<close>, \<open>addPage\<close> gives the document with the page
  appended (its argument is \<open>None\<close> for \<^verbatim>\<open>undefined\<close>), and \<open>save\<close> serialises.
\<close>

record ('doc, 'page) pdflib =
  load :: "bytes \<Rightarrow> 'doc option"
  getPageCount :: "'doc \<Rightarrow> nat"
  create :: "'doc option"
  copyPages :: "'doc \<Rightarrow> 'doc \<Rightarrow> int list \<Rightarrow> 'page list option"
  addPage :: "'doc \<Rightarrow> 'page option \<Rightarrow> 'doc option"
  save :: "'doc \<Rightarrow> bytes option"

text \<open>
  \<^verbatim>\<open>const [copiedPage] = await newPdfDoc.copyPages(sourcePdfDoc, [pageIndex])\<close> binds the
  first element of the array, or \<^verbatim>\<open>undefined\<close> when the array is empty.
\<close>

definition extractPage :: "('doc, 'page) pdflib \<Rightarrow> 'doc \<Rightarrow> int \<Rightarrow> 'doc option" where
  "extractPage lib sourcePdfDoc pageIndex =
     (case create lib of
        None \<Rightarrow> None
      | Some newPdfDoc \<Rightarrow>
          (case copyPages lib newPdfDoc sourcePdfDoc [pageIndex] of
             None \<Rightarrow> None
           | Some copied \<Rightarrow>
               let copiedPage = (case copied of [] \<Rightarrow> None | p # _ \<Rightarrow> Some p)
               in addPage lib newPdfDoc copiedPage))"

text \<open>
  The body of the loop over the target pages up to the construction of the result. The
  three local variables start as \<open>(None, PROCESSING, 0)\<close>; the \<^verbatim>\<open>try\<close> block assigns
  them after \<^verbatim>\<open>extractPage\<close> and \<^verbatim>\<open>save\<close> have returned, and the \<^verbatim>\<open>catch\<close>
  block assigns them when either has thrown.
\<close>

definition tryBlock ::
  "('doc, 'page) pdflib \<Rightarrow> 'doc \<Rightarrow> int \<Rightarrow> bytes option \<times> PageStatus \<times> nat \<Rightarrow>
   bytes option \<times> PageStatus \<times> nat" where
  "tryBlock lib sourcePdfDoc pageIndex vars =
     (case extractPage lib sourcePdfDoc pageIndex of
        None \<Rightarrow> (None, ERROR, 0)
      | Some singlePageDoc \<Rightarrow>
          (case save lib singlePageDoc of
             None \<Rightarrow> (None, ERROR, 0)
           | Some pageBytes \<Rightarrow> (Some pageBytes, OK, length pageBytes)))"

definition processPage :: "('doc, 'page) pdflib \<Rightarrow> 'doc \<Rightarrow> int \<Rightarrow> PageResult" where
  "processPage lib sourcePdfDoc pageIndex =
     (case tryBlock lib sourcePdfDoc pageIndex (None, PROCESSING, 0) of
        (finalBlob, st, sz) \<Rightarrow>
          \<lparr>pageNumber = pageIndex + 1, finalSize = sz, status = st, blob = finalBlob\<rparr>)"

text \<open>
  What a consumer of the generator sees, in order: the calls of \<^verbatim>\<open>onProgress\<close> and the
  values yielded. A run is the list of these events for a consumer that takes every value,
  with the way the run ends.
\<close>

datatype event = Progress ProgressUpdate | Yield PageResult

text \<open>
  \<^verbatim>\<open>10 + 90 * ((i + 1) / totalPagesToProcess)\<close> is computed in doubles: the exact
  result of each operation is rounded. \<open>rnd\<close> is that rounding, a parameter of the model.
\<close>

definition progressAfter :: "(rat \<Rightarrow> rat) \<Rightarrow> nat \<Rightarrow> nat \<Rightarrow> rat" where
  "progressAfter rnd i totalPagesToProcess =
     rnd (10 + rnd (90 * rnd (of_nat (i + 1) / of_nat totalPagesToProcess)))"

function pagesLoop ::
  "('doc, 'page) pdflib \<Rightarrow> (rat \<Rightarrow> rat) \<Rightarrow> 'doc \<Rightarrow> int list \<Rightarrow> nat \<Rightarrow> event list" where
  "pagesLoop lib rnd sourcePdfDoc pageIndicesToProcess i =
     (if i < length pageIndicesToProcess then
        [Progress \<lparr>stage = SPLITTING,
                   overallProgress = progressAfter rnd i (length pageIndicesToProcess),
                   processedPages = i + 1, totalPages = None\<rparr>,
         Yield (processPage lib sourcePdfDoc (pageIndicesToProcess ! i))]
        @ pagesLoop lib rnd sourcePdfDoc pageIndicesToProcess (i + 1)
      else [])"
  by pat_completeness auto
termination
  by (relation "measure (\<lambda>(_, _, _, ixs, i). length ixs - i)") auto

declare pagesLoop.simps [simp del]

text \<open>
  \<^verbatim>\<open>if (pagesToExtract)\<close> holds for a string that is given and not empty:
  \<^verbatim>\<open>undefined\<close> and \<^verbatim>\<open>""\<close> are both falsy. The optional argument is
  \<open>None\<close> when it is not given.
\<close>

definition targetIndices :: "jsstring option \<Rightarrow> nat \<Rightarrow> (error + int list) option" where
  "targetIndices pagesToExtract totalPagesInDoc =
     (case pagesToExtract of
        None \<Rightarrow> Some (Inr (map int [0..<totalPagesInDoc]))
      | Some selection \<Rightarrow>
          if selection = [] then Some (Inr (map int [0..<totalPagesInDoc]))
          else
            (case parsePageRanges selection (int totalPagesInDoc) of
               None \<Rightarrow> None
             | Some (Inl e) \<Rightarrow> Some (Inl e)
             | Some (Inr pages) \<Rightarrow> Some (Inr (map (\<lambda>p. p - 1) pages))))"

text \<open>
  How a run ends: the generator finishes, it throws, or it never gets out of the parser.
\<close>

datatype ending = Finished | Threw error | Hangs

text \<open>
  \<open>fileBuffer\<close> is the content of the file, which \<^verbatim>\<open>file.arrayBuffer()\<close> has read
  before the first snapshot. A parser error is thrown again as it is caught.
\<close>

definition pdfProcessor ::
  "('doc, 'page) pdflib \<Rightarrow> (rat \<Rightarrow> rat) \<Rightarrow> bytes \<Rightarrow> jsstring option \<Rightarrow>
   event list \<times> ending" where
  "pdfProcessor lib rnd fileBuffer pagesToExtract =
     (let analyzing = Progress \<lparr>stage = ANALYZING, overallProgress = 5, processedPages = 0,
                                totalPages = None\<rparr>
      in case load lib fileBuffer of
           None \<Rightarrow> ([analyzing], Threw error_pdf_load)
         | Some sourcePdfDoc \<Rightarrow>
             (case targetIndices pagesToExtract (getPageCount lib sourcePdfDoc) of
                None \<Rightarrow> ([analyzing], Hangs)
              | Some (Inl e) \<Rightarrow> ([analyzing], Threw e)
              | Some (Inr pageIndicesToProcess) \<Rightarrow>
                  let totalPagesToProcess = length pageIndicesToProcess
                  in ([analyzing,
                       Progress \<lparr>stage = SPLITTING, overallProgress = 10, processedPages = 0,
                                 totalPages = Some totalPagesToProcess\<rparr>]
                      @ pagesLoop lib rnd sourcePdfDoc pageIndicesToProcess 0
                      @ [Progress \<lparr>stage = DONE, overallProgress = 100,
                                    processedPages = totalPagesToProcess, totalPages = None\<rparr>],
                      Finished)))"

text \<open>The values yielded and the snapshots reported by a run, each in order.\<close>

fun outcomes :: "event list \<Rightarrow> PageResult list" where
  "outcomes [] = []"
| "outcomes (Yield r # evs) = r # outcomes evs"
| "outcomes (Progress u # evs) = outcomes evs"

fun snapshots :: "event list \<Rightarrow> ProgressUpdate list" where
  "snapshots [] = []"
| "snapshots (Progress u # evs) = u # snapshots evs"
| "snapshots (Yield r # evs) = snapshots evs"


text \<open>
  The step the pipeline takes for one page is its copy and its serialisation; it fails
  when \<^verbatim>\<open>extractPage\<close> or \<^verbatim>\<open>save\<close> throws.
\<close>

definition copyFails :: "('doc, 'page) pdflib \<Rightarrow> 'doc \<Rightarrow> int \<Rightarrow> bool" where
  "copyFails lib sourcePdfDoc pageIndex \<longleftrightarrow>
     (case extractPage lib sourcePdfDoc pageIndex of
        None \<Rightarrow> True
      | Some singlePageDoc \<Rightarrow> save lib singlePageDoc = None)"

text \<open>
  In the words of the specification, a range token is well formed when it splits around
  its hyphen into exactly two sub-parts, both non-empty and both parsing as integers.
\<close>

definition twoSubParts :: "jsstring \<Rightarrow> jsstring \<Rightarrow> jsstring \<Rightarrow> bool" where
  "twoSubParts part r0 r1 \<longleftrightarrow>
     part = r0 @ hyphen # r1 \<and> hyphen \<notin> set r0 \<and> hyphen \<notin> set r1 \<and>
     trim r0 \<noteq> [] \<and> trim r1 \<noteq> [] \<and> \<not> isNaN (parseInt r0) \<and> \<not> isNaN (parseInt r1)"

subsection \<open>A small engine to run the model on\<close>

text \<open>
  A document of \<open>toyLib\<close> is the list of its pages, a page is one byte. A file loads when
  it starts with the byte 37; each further byte is a page. The page 0 cannot be copied.
\<close>

definition toyLib :: "(nat list, nat) pdflib" where
  "toyLib =
     \<lparr>load = (\<lambda>fileBuffer. case fileBuffer of [] \<Rightarrow> None
                | b # pages \<Rightarrow> if b = 37 then Some pages else None),
      getPageCount = length,
      create = Some [],
      copyPages = (\<lambda>target source indices.
         if list_all (\<lambda>i. 0 \<le> i \<and> nat i < length source \<and> source ! nat i \<noteq> 0) indices
         then Some (map (\<lambda>i. source ! nat i) indices) else None),
      addPage = (\<lambda>doc page. case page of None \<Rightarrow> None | Some p \<Rightarrow> Some (doc @ [p])),
      save = (\<lambda>doc. Some (37 # doc))\<rparr>"

section \<open>Properties of the range parser\<close>

subsection \<open>Evaluation\<close>

text \<open>The definitions that the simplifier unfolds to run the parser on a given selection.\<close>

lemmas parser_eval =
  js_def isSpace_def isDigit_def trim_def includes_str_def split_def allowedChar_def test_def
  gt_def toNumber_def digitsValue_def parseInt_def add_def increment_def addRange.simps
  processPart_def parsePageRanges_def Let_def

text \<open>The parser on the selections that the specification lists as examples.\<close>

lemma parsePageRanges_examples:
  "parsePageRanges (js ''1,3-5,8'') 10 = Some (Inr [1, 3, 4, 5, 8])"
  "parsePageRanges (js ''2,2,1-2'') 5 = Some (Inr [1, 2])"
  "parsePageRanges (js ''5-2'') 10 = Some (Inl error_pageSelection_invalidRangeOrder)"
  "parsePageRanges (js ''1-20'') 10 = Some (Inl error_pageSelection_outOfBounds)"
  "parsePageRanges (js ''a,b'') 10 = Some (Inl error_pageSelection_invalidChars)"
  "parsePageRanges (js ''3-'') 10 = Some (Inl error_pageSelection_invalidRangeFormat)"
  "parsePageRanges (js ''-3'') 10 = Some (Inl error_pageSelection_invalidRangeFormat)"
  "parsePageRanges [] 10 = Some (Inl error_pageSelection_empty)"
  "parsePageRanges (js ''   '') 10 = Some (Inl error_pageSelection_empty)"
  by (simp_all add: parser_eval)

text \<open>
  Numerals beyond \<open>2 ^ 53\<close> are rounded before they are compared: the first range below
  has a start that is greater than its end as written, and equal to it as a double.
\<close>

lemma toNumber_examples:
  "toNumber 9007199254740993 = Fin 9007199254740992"
  "toNumber 9007199254740995 = Fin 9007199254740996"
  "toNumber 99999999999999999999 = Fin 100000000000000000000"
  by (simp_all add: toNumber_def bitlen.simps Let_def)

lemma parsePageRanges_rounded_examples:
  "parsePageRanges (js ''9007199254740993-9007199254740992'') 10 =
     Some (Inl error_pageSelection_outOfBounds)"
  "parsePageRanges (js ''9007199254740995-9007199254740992'') 10 =
     Some (Inl error_pageSelection_invalidRangeOrder)"
  by (simp_all add: parser_eval bitlen.simps)

text \<open>
  From \<open>2 ^ 53\<close> on the loop variable can stop advancing. The loop over the one page
  \<open>2 ^ 53 + 2\<close> ends, because \<^verbatim>\<open>i++\<close> gives \<open>2 ^ 53 + 4\<close>; the loop from \<open>2 ^ 53\<close> does
  not, because \<^verbatim>\<open>i++\<close> gives \<open>2 ^ 53\<close> again.
\<close>

lemma increment_examples:
  "increment 9007199254740991 = Fin 9007199254740992"
  "increment 9007199254740992 = Fin 9007199254740992"
  "increment 9007199254740994 = Fin 9007199254740996"
  "increment 9007199254740996 = Fin 9007199254740996"
  by (simp_all add: increment_def toNumber_def bitlen.simps Let_def)

lemma addRange_examples:
  "addRange 3 5 [1] = Some [1, 3, 4, 5]"
  "addRange 9007199254740994 9007199254740994 [] = Some [9007199254740994]"
  "addRange 9007199254740992 9007199254740992 [] = None"
  "addRange 9007199254740992 9007199254740994 [] = None"
  by (simp_all add: addRange.simps add_def increment_def toNumber_def bitlen.simps Let_def)

subsection \<open>The page set\<close>

lemma set_add: "set (add x xs) = insert x (set xs)"
  by (auto simp: add_def)

lemma distinct_add: "distinct xs \<Longrightarrow> distinct (add x xs)"
  by (simp add: add_def)

lemma add_not_Nil: "add x xs \<noteq> []"
  by (auto simp: add_def)

lemma toNumber_small: "n < 2 ^ 53 \<Longrightarrow> toNumber n = Fin (int n)"
  by (simp add: toNumber_def)

lemma toNumber_2_53: "toNumber 9007199254740992 = Fin 9007199254740992"
  by (simp add: toNumber_def bitlen.simps Let_def)

lemma increment_exact:
  assumes "0 \<le> i" and "i < 2 ^ 53"
  shows "increment i = Fin (i + 1)"
proof (cases "i + 1 < 2 ^ 53")
  case True
  with assms(1) have "nat (i + 1) < 2 ^ 53" by (simp add: nat_less_iff)
  from toNumber_small [OF this] assms(1) show ?thesis by (simp add: increment_def)
next
  case False
  with assms(2) have "i + 1 = 9007199254740992" by simp
  then have "nat (i + 1) = 9007199254740992" by simp
  with \<open>i + 1 = 9007199254740992\<close> show ?thesis
    by (simp only: increment_def toNumber_2_53) simp
qed

lemma addRange_done: "\<not> i \<le> e \<Longrightarrow> addRange i e xs = Some xs"
  by (subst addRange.simps) (simp only: if_False)

lemma addRange_Some:
  "addRange i e xs = Some ys \<Longrightarrow>
   set xs \<subseteq> set ys \<and> set ys \<subseteq> set xs \<union> {i..e} \<and> (distinct xs \<longrightarrow> distinct ys) \<and>
   (i \<le> e \<longrightarrow> i \<in> set ys)"
proof (induction i e xs rule: addRange.induct)
  case (1 i e xs)
  show ?case
  proof (cases "i \<le> e")
    case False
    with "1.prems" have "ys = xs" by (simp add: addRange_done)
    with False show ?thesis by simp
  next
    case le: True
    show ?thesis
    proof (cases "increment i")
      case (Fin j)
      with le "1.prems" have j: "\<not> j \<le> i" and r: "addRange j e (add i xs) = Some ys"
        by (simp_all add: addRange.simps [of i e xs] split: if_splits)
      from "1.IH" [OF le Fin j r] have
        "set (add i xs) \<subseteq> set ys" "set ys \<subseteq> set (add i xs) \<union> {j..e}"
        "distinct (add i xs) \<longrightarrow> distinct ys"
        by simp_all
      with j le show ?thesis by (auto simp: set_add distinct_add)
    next
      case NInf
      with le "1.prems" show ?thesis by (simp add: addRange.simps [of i e xs])
    next
      case NaN
      with le "1.prems" have "ys = add i xs" by (simp add: addRange.simps [of i e xs])
      with le show ?thesis by (auto simp: set_add distinct_add)
    next
      case PInf
      with le "1.prems" have "ys = add i xs" by (simp add: addRange.simps [of i e xs])
      with le show ?thesis by (auto simp: set_add distinct_add)
    qed
  qed
qed

lemma addRange_exact:
  "0 \<le> i \<Longrightarrow> e < 2 ^ 53 \<Longrightarrow> \<exists>ys. addRange i e xs = Some ys \<and> set ys = set xs \<union> {i..e}"
proof (induction i e xs rule: addRange.induct)
  case (1 i e xs)
  show ?case
  proof (cases "i \<le> e")
    case False
    then show ?thesis by (simp add: addRange_done)
  next
    case le: True
    with "1.prems" have inc: "increment i = Fin (i + 1)" by (simp add: increment_exact)
    have "\<not> i + 1 \<le> i" by simp
    from "1.IH" [OF le inc this] "1.prems" obtain ys where
      ys: "addRange (i + 1) e (add i xs) = Some ys" "set ys = set (add i xs) \<union> {i + 1..e}"
      by auto
    have "addRange i e xs = addRange (i + 1) e (add i xs)"
      by (subst addRange.simps) (simp add: le inc)
    also note ys(1)
    finally have r: "addRange i e xs = Some ys" .
    from le have "insert i (set xs) \<union> {i + 1..e} = set xs \<union> {i..e}" by auto
    with ys(2) have "set ys = set xs \<union> {i..e}" by (simp only: set_add)
    with r show ?thesis by blast
  qed
qed

lemma range_bounds_finite:
  assumes "\<not> isNaN s" "\<not> isNaN e" "\<not> gt s e" "\<not> lt s (Fin 1)" "\<not> gt e (Fin t)"
  shows "\<exists>a b. s = Fin a \<and> e = Fin b \<and> 1 \<le> a \<and> a \<le> b \<and> b \<le> t"
  using assms by (cases s; cases e) (auto simp: gt_def)

lemma page_finite:
  assumes "\<not> isNaN p" "\<not> lt p (Fin 1)" "\<not> gt p (Fin t)"
  shows "\<exists>a. p = Fin a \<and> 1 \<le> a \<and> a \<le> t"
  using assms by (cases p) (auto simp: gt_def)

lemma processPart_Inr:
  assumes "processPart t part xs = Some (Inr ys)"
  shows "(\<exists>a b. 1 \<le> a \<and> a \<le> b \<and> b \<le> t \<and> addRange a b xs = Some ys) \<or>
         (\<exists>p. 1 \<le> p \<and> p \<le> t \<and> ys = add p xs)"
proof (cases "includes_str part hyphen")
  case True
  with assms obtain r0 r1 where sp: "split hyphen part = [r0, r1]"
    by (auto simp: processPart_def split: list.splits)
  from assms True sp have c: "\<not> isNaN (parseInt r0)" "\<not> isNaN (parseInt r1)"
      "\<not> gt (parseInt r0) (parseInt r1)" "\<not> lt (parseInt r0) (Fin 1)" "\<not> gt (parseInt r1) (Fin t)"
    and ys: "forLoop (parseInt r0) (parseInt r1) xs = Some ys"
    by (auto simp: processPart_def Let_def split: if_splits)
  from range_bounds_finite [OF c] obtain a b where
    "parseInt r0 = Fin a" "parseInt r1 = Fin b" "1 \<le> a" "a \<le> b" "b \<le> t" by blast
  with ys show ?thesis by auto
next
  case False
  with assms have c: "\<not> isNaN (parseInt part)" "\<not> lt (parseInt part) (Fin 1)"
      "\<not> gt (parseInt part) (Fin t)"
    and ys: "ys = addNumber (parseInt part) xs"
    by (auto simp: processPart_def Let_def split: if_splits)
  from page_finite [OF c] obtain p where "parseInt part = Fin p" "1 \<le> p" "p \<le> t" by blast
  with ys show ?thesis by auto
qed

lemma processPart_set:
  assumes "processPart t part xs = Some (Inr ys)"
  shows "set ys \<subseteq> set xs \<union> {1..t}"
proof -
  from processPart_Inr [OF assms] consider
    a b where "1 \<le> a" "b \<le> t" "addRange a b xs = Some ys" | p where "1 \<le> p" "p \<le> t" "ys = add p xs"
    by blast
  then show ?thesis
  proof cases
    case 1
    from addRange_Some [OF 1(3)] have "set ys \<subseteq> set xs \<union> {a..b}" by simp
    with 1(1,2) show ?thesis by auto
  next
    case 2
    then show ?thesis by (auto simp: set_add)
  qed
qed

lemma processPart_distinct:
  assumes "processPart t part xs = Some (Inr ys)" and "distinct xs"
  shows "distinct ys"
proof -
  from processPart_Inr [OF assms(1)] consider
    a b where "addRange a b xs = Some ys" | p where "ys = add p xs"
    by blast
  then show ?thesis
  proof cases
    case 1
    from addRange_Some [OF 1] assms(2) show ?thesis by simp
  next
    case 2
    with assms(2) show ?thesis by (simp add: distinct_add)
  qed
qed

lemma processPart_not_Nil:
  assumes "processPart t part xs = Some (Inr ys)"
  shows "ys \<noteq> []"
proof -
  from processPart_Inr [OF assms] consider
    a b where "a \<le> b" "addRange a b xs = Some ys" | p where "ys = add p xs"
    by blast
  then show ?thesis
  proof cases
    case 1
    from addRange_Some [OF 1(2)] 1(1) have "a \<in> set ys" by simp
    then show ?thesis by auto
  next
    case 2
    then show ?thesis by (simp add: add_not_Nil)
  qed
qed

lemma processParts_Cons_Inr:
  assumes "processParts t (part # parts) xs = Some (Inr ys)"
  obtains zs where "processPart t part xs = Some (Inr zs)" "processParts t parts zs = Some (Inr ys)"
  using assms by (auto split: option.splits sum.splits)

lemma processParts_set:
  "processParts t parts xs = Some (Inr ys) \<Longrightarrow> set ys \<subseteq> set xs \<union> {1..t}"
proof (induction parts arbitrary: xs)
  case Nil
  then show ?case by simp
next
  case (Cons part parts)
  from Cons.prems obtain zs where
    z: "processPart t part xs = Some (Inr zs)" "processParts t parts zs = Some (Inr ys)"
    by (rule processParts_Cons_Inr)
  from Cons.IH [OF z(2)] processPart_set [OF z(1)] show ?case by blast
qed

lemma processParts_distinct:
  "processParts t parts xs = Some (Inr ys) \<Longrightarrow> distinct xs \<Longrightarrow> distinct ys"
proof (induction parts arbitrary: xs)
  case Nil
  then show ?case by simp
next
  case (Cons part parts)
  from Cons.prems(1) obtain zs where
    z: "processPart t part xs = Some (Inr zs)" "processParts t parts zs = Some (Inr ys)"
    by (rule processParts_Cons_Inr)
  from processPart_distinct [OF z(1) Cons.prems(2)] Cons.IH [OF z(2)] show ?case by blast
qed

lemma processParts_not_Nil:
  "processParts t parts xs = Some (Inr ys) \<Longrightarrow> parts \<noteq> [] \<or> xs \<noteq> [] \<Longrightarrow> ys \<noteq> []"
proof (induction parts arbitrary: xs)
  case Nil
  then show ?case by simp
next
  case (Cons part parts)
  from Cons.prems(1) obtain zs where
    z: "processPart t part xs = Some (Inr zs)" "processParts t parts zs = Some (Inr ys)"
    by (rule processParts_Cons_Inr)
  from processPart_not_Nil [OF z(1)] Cons.IH [OF z(2)] show ?case by blast
qed

lemma split_from_not_Nil: "split_from sep cur s \<noteq> []"
  by (induction s arbitrary: cur) auto

lemma split_not_Nil: "split sep s \<noteq> []"
  by (simp add: split_def split_from_not_Nil)

subsection \<open>The result is ascending, without duplicates and within the document\<close>

text \<open>
  Claim C1. Whenever \<open>parsePageRanges\<close> returns a sequence, for any selection and any page
  count, that sequence is strictly ascending, has no duplicate, and every element of it
  lies between 1 and the page count.
\<close>

theorem parsePageRanges_ascending:
  assumes "parsePageRanges selection pageCount = Some (Inr pages)"
  shows "sorted_wrt (<) pages \<and> distinct pages \<and> (\<forall>p \<in> set pages. 1 \<le> p \<and> p \<le> pageCount)"
proof -
  from assms obtain pageNumbers where
    pp: "processParts pageCount (map trim (split comma selection)) [] = Some (Inr pageNumbers)"
    and pages: "pages = sort pageNumbers"
    by (auto simp: parsePageRanges_def split: if_splits option.splits sum.splits)
  from processParts_distinct [OF pp] have d: "distinct pages" by (simp add: pages)
  from processParts_set [OF pp] have "set pages \<subseteq> {1..pageCount}" by (simp add: pages)
  moreover have "sorted pages" by (simp add: pages)
  ultimately show ?thesis using d by (auto simp: strict_sorted_iff)
qed

theorem parsePageRanges_ascending_witness:
  "parsePageRanges (js ''2,2,1-2'') 5 = Some (Inr [1, 2]) \<and>
   sorted_wrt (<) [1, 2 :: int] \<and> distinct [1, 2 :: int] \<and> set [1, 2 :: int] \<subseteq> {1..5}"
proof -
  have h: "parsePageRanges (js ''2,2,1-2'') 5 = Some (Inr [1, 2])"
    by (simp add: parser_eval)
  from parsePageRanges_ascending [OF h] h show ?thesis by auto
qed

subsection \<open>The final guard\<close>

text \<open>
  Claim C7. The check of an empty page set after the loop never fires: when the selection
  has passed the check for an empty string and the check of its characters, and every
  token has been processed without an error, the page set is not empty, and
  \<open>parsePageRanges\<close> returns it sorted.
\<close>

theorem empty_guard_unreachable:
  assumes "selection \<noteq> []" "trim selection \<noteq> []" "test selection"
    and "processParts pageCount (map trim (split comma selection)) [] = Some (Inr pageNumbers)"
  shows "length pageNumbers \<noteq> 0 \<and>
         parsePageRanges selection pageCount = Some (Inr (sort pageNumbers))"
proof -
  have "map trim (split comma selection) \<noteq> []" by (simp add: split_not_Nil)
  with processParts_not_Nil [OF assms(4)] have "pageNumbers \<noteq> []" by blast
  with assms show ?thesis by (simp add: parsePageRanges_def)
qed

theorem empty_guard_unreachable_witness:
  "js ''1,3-5,8'' \<noteq> [] \<and> trim (js ''1,3-5,8'') \<noteq> [] \<and> test (js ''1,3-5,8'') \<and>
   processParts 10 (map trim (split comma (js ''1,3-5,8''))) [] = Some (Inr [1, 3, 4, 5, 8]) \<and>
   length [1, 3, 4, 5, 8 :: int] \<noteq> 0 \<and>
   parsePageRanges (js ''1,3-5,8'') 10 = Some (Inr (sort [1, 3, 4, 5, 8]))"
proof -
  have h: "js ''1,3-5,8'' \<noteq> []" "trim (js ''1,3-5,8'') \<noteq> []" "test (js ''1,3-5,8'')"
    "processParts 10 (map trim (split comma (js ''1,3-5,8''))) [] = Some (Inr [1, 3, 4, 5, 8])"
    by (simp_all add: parser_eval)
  from empty_guard_unreachable [OF h] h show ?thesis by simp
qed

subsection \<open>Splitting at a separator\<close>

lemma split_from_no_sep: "sep \<notin> set s \<Longrightarrow> split_from sep cur s = [rev cur @ s]"
  by (induction s arbitrary: cur) auto

lemma split_from_first:
  "sep \<notin> set a \<Longrightarrow> split_from sep cur (a @ sep # rest) = (rev cur @ a) # split_from sep [] rest"
  by (induction a arbitrary: cur) auto

lemma split_from_two_long:
  assumes "sep \<in> set s"
  shows "\<exists>x y zs. split_from sep cur s = x # y # zs"
proof -
  from assms obtain a rest where s: "s = a @ sep # rest" "sep \<notin> set a"
    by (auto dest: split_list_first)
  obtain y zs where "split_from sep [] rest = y # zs"
    using split_from_not_Nil [of sep "[]" rest] by (cases "split_from sep [] rest") auto
  with s show ?thesis by (simp add: split_from_first)
qed

lemma split_two_iff:
  "split sep s = [r0, r1] \<longleftrightarrow> s = r0 @ sep # r1 \<and> sep \<notin> set r0 \<and> sep \<notin> set r1"
proof
  assume sp: "split sep s = [r0, r1]"
  have "sep \<in> set s"
  proof (rule ccontr)
    assume "sep \<notin> set s"
    then have "split sep s = [s]" by (simp add: split_def split_from_no_sep)
    with sp show False by simp
  qed
  then obtain a rest where s: "s = a @ sep # rest" "sep \<notin> set a"
    by (auto dest: split_list_first)
  with sp have a: "r0 = a" and r: "split_from sep [] rest = [r1]"
    by (simp_all add: split_def split_from_first)
  have "sep \<notin> set rest"
  proof
    assume "sep \<in> set rest"
    from split_from_two_long [OF this, of "[]"] r show False by auto
  qed
  with r have "r1 = rest" by (simp add: split_from_no_sep)
  with a s \<open>sep \<notin> set rest\<close> show "s = r0 @ sep # r1 \<and> sep \<notin> set r0 \<and> sep \<notin> set r1" by simp
next
  assume "s = r0 @ sep # r1 \<and> sep \<notin> set r0 \<and> sep \<notin> set r1"
  then show "split sep s = [r0, r1]"
    by (simp add: split_def split_from_first split_from_no_sep)
qed

subsection \<open>Range tokens\<close>

lemma processPart_malformed:
  assumes "hyphen \<in> set part" and "\<not> (\<exists>r0 r1. twoSubParts part r0 r1)"
  shows "processPart t part acc = Some (Inl error_pageSelection_invalidRangeFormat)"
proof (cases "\<exists>r0 r1. split hyphen part = [r0, r1]")
  case True
  then obtain r0 r1 where sp: "split hyphen part = [r0, r1]" by blast
  then have "part = r0 @ hyphen # r1 \<and> hyphen \<notin> set r0 \<and> hyphen \<notin> set r1"
    by (simp add: split_two_iff)
  with assms(2) have "trim r0 = [] \<or> trim r1 = [] \<or> isNaN (parseInt r0) \<or> isNaN (parseInt r1)"
    by (auto simp: twoSubParts_def)
  with assms(1) sp show ?thesis
    by (auto simp: processPart_def includes_str_def Let_def)
next
  case False
  with assms(1) show ?thesis
    by (auto simp: processPart_def includes_str_def split: list.splits)
qed

lemma processPart_wellformed:
  assumes "twoSubParts part r0 r1"
  shows "processPart t part acc =
     (if gt (parseInt r0) (parseInt r1) then Some (Inl error_pageSelection_invalidRangeOrder)
      else if lt (parseInt r0) (Fin 1) \<or> gt (parseInt r1) (Fin t)
        then Some (Inl error_pageSelection_outOfBounds)
      else map_option Inr (forLoop (parseInt r0) (parseInt r1) acc))"
proof -
  from assms have "split hyphen part = [r0, r1]"
    by (simp add: split_two_iff twoSubParts_def)
  moreover from assms have "hyphen \<in> set part" by (simp add: twoSubParts_def)
  ultimately show ?thesis
    using assms by (simp add: processPart_def includes_str_def Let_def twoSubParts_def)
qed

lemma processParts_throws:
  assumes "processParts t before acc = Some (Inr acc')" and "processPart t part acc' = Some (Inl e)"
  shows "processParts t (before @ part # rest) acc = Some (Inl e)"
  using assms by (induction before arbitrary: acc) (auto split: option.splits sum.splits)

lemma processParts_snoc:
  assumes "processParts t before acc = Some (Inr acc')"
  shows "processParts t (before @ [part]) acc = processPart t part acc'"
  using assms by (induction before arbitrary: acc) (auto split: option.splits sum.splits)

lemma parsePageRanges_throws:
  assumes "selection \<noteq> []" "trim selection \<noteq> []" "test selection"
    and "map trim (split comma selection) = before @ part # rest"
    and "processParts t before [] = Some (Inr acc)" and "processPart t part acc = Some (Inl e)"
  shows "parsePageRanges selection t = Some (Inl e)"
  using assms processParts_throws [OF assms(5,6), of rest]
  by (simp add: parsePageRanges_def)

text \<open>
  Claim C6 as stated fails for a range that reaches \<open>2 ^ 53\<close>. With \<open>2 ^ 53 + 2\<close> pages the
  token below passes every check, and its sub-parts are the integers \<open>2 ^ 53\<close> and
  \<open>2 ^ 53 + 2\<close>. The loop adds \<open>2 ^ 53\<close>; then \<^verbatim>\<open>i++\<close> leaves the loop variable at
  \<open>2 ^ 53\<close>, the loop never ends, and the parser never returns: the integers \<open>2 ^ 53 + 1\<close>
  and \<open>2 ^ 53 + 2\<close> are never added.
\<close>

theorem range_beyond_exact_integers_counterexample:
  "twoSubParts (js ''9007199254740992-9007199254740994'')
     (js ''9007199254740992'') (js ''9007199254740994'') \<and>
   parseInt (js ''9007199254740992'') = Fin 9007199254740992 \<and>
   parseInt (js ''9007199254740994'') = Fin 9007199254740994 \<and>
   \<not> gt (Fin 9007199254740992) (Fin 9007199254740994) \<and>
   \<not> lt (Fin 9007199254740992) (Fin 1) \<and>
   \<not> gt (Fin 9007199254740994) (Fin 9007199254740994) \<and>
   add 9007199254740992 [] = [9007199254740992] \<and>
   increment 9007199254740992 = Fin 9007199254740992 \<and>
   processPart 9007199254740994 (js ''9007199254740992-9007199254740994'') [] = None \<and>
   parsePageRanges (js ''9007199254740992-9007199254740994'') 9007199254740994 = None"
  by (simp add: twoSubParts_def parser_eval bitlen.simps)

text \<open>
  Claim C6, amended. Take a selection that passes the two initial checks, and a token of it
  that contains a hyphen and is reached, every token before it having been processed
  without an error. If the token does not split around its hyphen into exactly two
  non-empty sub-parts that parse as integers, \<open>parsePageRanges\<close> fails with the error of an
  invalid range format. Otherwise it fails with the error of an invalid range order when
  start is greater than end; otherwise with the error of a page out of bounds when start is
  below 1 or end is above the page count; otherwise start and end are integers \<open>a\<close> and
  \<open>b\<close>, and when \<open>b\<close> is below \<open>2 ^ 53\<close>, processing the token ends and adds every integer
  from \<open>a\<close> to \<open>b\<close> to the page set.
\<close>

theorem range_token_rules:
  assumes "selection \<noteq> []" "trim selection \<noteq> []" "test selection"
    and "map trim (split comma selection) = before @ part # rest"
    and "processParts pageCount before [] = Some (Inr pageNumbers)"
    and "hyphen \<in> set part"
  shows "(\<not> (\<exists>r0 r1. twoSubParts part r0 r1) \<longrightarrow>
            parsePageRanges selection pageCount =
              Some (Inl error_pageSelection_invalidRangeFormat)) \<and>
         (\<forall>r0 r1. twoSubParts part r0 r1 \<longrightarrow>
            (gt (parseInt r0) (parseInt r1) \<longrightarrow>
               parsePageRanges selection pageCount =
                 Some (Inl error_pageSelection_invalidRangeOrder)) \<and>
            (\<not> gt (parseInt r0) (parseInt r1) \<and>
             (lt (parseInt r0) (Fin 1) \<or> gt (parseInt r1) (Fin pageCount)) \<longrightarrow>
               parsePageRanges selection pageCount =
                 Some (Inl error_pageSelection_outOfBounds)) \<and>
            (\<not> gt (parseInt r0) (parseInt r1) \<and>
             \<not> lt (parseInt r0) (Fin 1) \<and> \<not> gt (parseInt r1) (Fin pageCount) \<longrightarrow>
               (\<exists>a b. parseInt r0 = Fin a \<and> parseInt r1 = Fin b \<and>
                  (b < 2 ^ 53 \<longrightarrow>
                     (\<exists>pageNumbers'.
                        processParts pageCount (before @ [part]) [] = Some (Inr pageNumbers') \<and>
                        set pageNumbers' = set pageNumbers \<union> {a..b})))))"
proof (intro conjI allI impI)
  assume "\<not> (\<exists>r0 r1. twoSubParts part r0 r1)"
  from parsePageRanges_throws [OF assms(1-5) processPart_malformed [OF assms(6) this]]
  show "parsePageRanges selection pageCount = Some (Inl error_pageSelection_invalidRangeFormat)" .
next
  fix r0 r1
  assume w: "twoSubParts part r0 r1" and "gt (parseInt r0) (parseInt r1)"
  then have "processPart pageCount part pageNumbers = Some (Inl error_pageSelection_invalidRangeOrder)"
    by (simp add: processPart_wellformed [OF w])
  from parsePageRanges_throws [OF assms(1-5) this]
  show "parsePageRanges selection pageCount = Some (Inl error_pageSelection_invalidRangeOrder)" .
next
  fix r0 r1
  assume w: "twoSubParts part r0 r1"
    and "\<not> gt (parseInt r0) (parseInt r1) \<and>
         (lt (parseInt r0) (Fin 1) \<or> gt (parseInt r1) (Fin pageCount))"
  then have "processPart pageCount part pageNumbers = Some (Inl error_pageSelection_outOfBounds)"
    by (simp add: processPart_wellformed [OF w])
  from parsePageRanges_throws [OF assms(1-5) this]
  show "parsePageRanges selection pageCount = Some (Inl error_pageSelection_outOfBounds)" .
next
  fix r0 r1
  assume w: "twoSubParts part r0 r1"
    and c: "\<not> gt (parseInt r0) (parseInt r1) \<and>
         \<not> lt (parseInt r0) (Fin 1) \<and> \<not> gt (parseInt r1) (Fin pageCount)"
  from w have n: "\<not> isNaN (parseInt r0)" "\<not> isNaN (parseInt r1)" by (simp_all add: twoSubParts_def)
  from c have c': "\<not> gt (parseInt r0) (parseInt r1)" "\<not> lt (parseInt r0) (Fin 1)"
    "\<not> gt (parseInt r1) (Fin pageCount)" by simp_all
  from range_bounds_finite [OF n c'] obtain a b where
    ab: "parseInt r0 = Fin a" "parseInt r1 = Fin b" and a: "1 \<le> a" by blast
  from c have p: "processPart pageCount part pageNumbers =
      map_option Inr (forLoop (parseInt r0) (parseInt r1) pageNumbers)"
    by (simp add: processPart_wellformed [OF w])
  have "\<exists>pageNumbers'. processParts pageCount (before @ [part]) [] = Some (Inr pageNumbers') \<and>
      set pageNumbers' = set pageNumbers \<union> {a..b}" if "b < 2 ^ 53"
  proof -
    from a have "0 \<le> a" by simp
    from addRange_exact [OF this that, of pageNumbers] obtain ys where
      "addRange a b pageNumbers = Some ys" "set ys = set pageNumbers \<union> {a..b}" by blast
    with ab p show ?thesis by (simp add: processParts_snoc [OF assms(5)])
  qed
  with ab show "\<exists>a b. parseInt r0 = Fin a \<and> parseInt r1 = Fin b \<and>
      (b < 2 ^ 53 \<longrightarrow>
         (\<exists>pageNumbers'.
            processParts pageCount (before @ [part]) [] = Some (Inr pageNumbers') \<and>
            set pageNumbers' = set pageNumbers \<union> {a..b}))"
    by blast
qed

theorem range_token_rules_witness:
  "js ''1,3-5,8'' \<noteq> [] \<and> trim (js ''1,3-5,8'') \<noteq> [] \<and> test (js ''1,3-5,8'') \<and>
   map trim (split comma (js ''1,3-5,8'')) = [js ''1''] @ js ''3-5'' # [js ''8''] \<and>
   processParts 10 [js ''1''] [] = Some (Inr [1]) \<and> hyphen \<in> set (js ''3-5'') \<and>
   twoSubParts (js ''3-5'') (js ''3'') (js ''5'') \<and>
   parseInt (js ''3'') = Fin 3 \<and> parseInt (js ''5'') = Fin 5 \<and> (5 :: int) < 2 ^ 53 \<and>
   (\<exists>pageNumbers'. processParts 10 ([js ''1''] @ [js ''3-5'']) [] = Some (Inr pageNumbers') \<and>
      set pageNumbers' = set [1] \<union> {3..5})"
proof -
  have h: "js ''1,3-5,8'' \<noteq> []" "trim (js ''1,3-5,8'') \<noteq> []" "test (js ''1,3-5,8'')"
    "map trim (split comma (js ''1,3-5,8'')) = [js ''1''] @ js ''3-5'' # [js ''8'']"
    "processParts 10 [js ''1''] [] = Some (Inr [1])" "hyphen \<in> set (js ''3-5'')"
    by (simp_all add: parser_eval)
  have w: "twoSubParts (js ''3-5'') (js ''3'') (js ''5'')"
    and p: "parseInt (js ''3'') = Fin 3" "parseInt (js ''5'') = Fin 5"
    by (simp_all add: twoSubParts_def parser_eval)
  have c: "\<not> gt (parseInt (js ''3'')) (parseInt (js ''5'')) \<and>
      \<not> lt (parseInt (js ''3'')) (Fin 1) \<and> \<not> gt (parseInt (js ''5'')) (Fin 10)"
    by (simp add: p gt_def)
  have s: "(5 :: int) < 2 ^ 53" by simp
  from range_token_rules [OF h, THEN conjunct2, rule_format, OF w,
      THEN conjunct2, THEN conjunct2, rule_format, OF c]
  obtain a b where ab: "parseInt (js ''3'') = Fin a" "parseInt (js ''5'') = Fin b"
    and r: "b < 2 ^ 53 \<longrightarrow>
      (\<exists>pageNumbers'. processParts 10 ([js ''1''] @ [js ''3-5'']) [] = Some (Inr pageNumbers') \<and>
         set pageNumbers' = set [1] \<union> {a..b})"
    by blast
  from ab p have "a = 3" "b = 5" by simp_all
  with r s have "\<exists>pageNumbers'. processParts 10 ([js ''1''] @ [js ''3-5'']) [] = Some (Inr pageNumbers') \<and>
      set pageNumbers' = set [1] \<union> {3..5}"
    by simp
  with h w p s show ?thesis by blast
qed

subsection \<open>White space inside a single token\<close>

text \<open>
  Claim C9. The selection \<^verbatim>\<open>"1 2"\<close> passes the check of its characters and is one
  token without a hyphen. \<open>parseInt\<close> reads its leading integer 1 and ignores the rest,
  so the token is not refused as an invalid number: page 1 alone is added, and the parser
  returns the sequence of page 1.
\<close>

theorem interior_whitespace_accepted:
  "test (js ''1 2'') \<and> map trim (split comma (js ''1 2'')) = [js ''1 2''] \<and>
   \<not> includes_str (js ''1 2'') hyphen \<and> parseInt (js ''1 2'') = Fin 1 \<and>
   processPart 10 (js ''1 2'') [] = Some (Inr [1]) \<and>
   parsePageRanges (js ''1 2'') 10 = Some (Inr [1])"
  by (simp add: parser_eval)

section \<open>Properties of the extraction pipeline\<close>

subsection \<open>Evaluation\<close>

text \<open>The definitions that the simplifier unfolds to run the pipeline on \<open>toyLib\<close>.\<close>

lemmas pipeline_eval =
  toyLib_def extractPage_def tryBlock_def processPage_def progressAfter_def pagesLoop.simps
  targetIndices_def pdfProcessor_def copyFails_def Let_def

subsection \<open>The loop over the target pages\<close>

lemma pagesLoop_done:
  "\<not> i < length ixs \<Longrightarrow> pagesLoop lib rnd src ixs i = []"
  by (subst pagesLoop.simps) (simp only: if_False)

lemma pagesLoop_step:
  "i < length ixs \<Longrightarrow>
   pagesLoop lib rnd src ixs i =
     [Progress \<lparr>stage = SPLITTING, overallProgress = progressAfter rnd i (length ixs),
                processedPages = i + 1, totalPages = None\<rparr>,
      Yield (processPage lib src (ixs ! i))] @ pagesLoop lib rnd src ixs (i + 1)"
  by (subst pagesLoop.simps) (simp only: if_True)

lemma outcomes_append: "outcomes (xs @ ys) = outcomes xs @ outcomes ys"
  by (induction xs rule: outcomes.induct) simp_all

lemma snapshots_append: "snapshots (xs @ ys) = snapshots xs @ snapshots ys"
  by (induction xs rule: snapshots.induct) simp_all

lemma outcomes_pagesLoop:
  "outcomes (pagesLoop lib rnd src ixs i) = map (\<lambda>k. processPage lib src (ixs ! k)) [i..<length ixs]"
proof (induction lib rnd src ixs i rule: pagesLoop.induct)
  case (1 lib rnd src ixs i)
  show ?case
  proof (cases "i < length ixs")
    case True
    have "outcomes (pagesLoop lib rnd src ixs i) =
            processPage lib src (ixs ! i) # outcomes (pagesLoop lib rnd src ixs (i + 1))"
      using True by (simp add: pagesLoop_step)
    also have "\<dots> = processPage lib src (ixs ! i) #
                      map (\<lambda>k. processPage lib src (ixs ! k)) [i + 1..<length ixs]"
      using 1 True by simp
    also have "\<dots> = map (\<lambda>k. processPage lib src (ixs ! k)) [i..<length ixs]"
      using True by (simp add: upt_conv_Cons)
    finally show ?thesis .
  next
    case False
    then show ?thesis by (simp add: pagesLoop_done)
  qed
qed


lemma outcomes_pagesLoop_all:
  "outcomes (pagesLoop lib rnd src ixs 0) = map (processPage lib src) ixs"
proof -
  have "map (\<lambda>k. processPage lib src (ixs ! k)) [0..<length ixs] =
        map (processPage lib src) (map ((!) ixs) [0..<length ixs])"
    by simp
  then show ?thesis by (simp only: outcomes_pagesLoop map_nth)
qed

lemma pdfProcessor_completes:
  assumes "load lib fileBuffer = Some src"
    and "targetIndices sel (getPageCount lib src) = Some (Inr ixs)"
  shows "pdfProcessor lib rnd fileBuffer sel =
     ([Progress \<lparr>stage = ANALYZING, overallProgress = 5, processedPages = 0, totalPages = None\<rparr>,
       Progress \<lparr>stage = SPLITTING, overallProgress = 10, processedPages = 0,
                 totalPages = Some (length ixs)\<rparr>]
      @ pagesLoop lib rnd src ixs 0
      @ [Progress \<lparr>stage = DONE, overallProgress = 100, processedPages = length ixs,
                    totalPages = None\<rparr>], Finished)"
  using assms by (simp add: pdfProcessor_def Let_def)

lemma pageNumber_processPage: "pageNumber (processPage lib src i) = i + 1"
  by (simp add: processPage_def split: prod.splits)

lemma processPage_fails:
  "copyFails lib src i \<Longrightarrow>
   processPage lib src i = \<lparr>pageNumber = i + 1, finalSize = 0, status = ERROR, blob = None\<rparr>"
  by (auto simp: copyFails_def processPage_def tryBlock_def split: option.splits)

lemma processPage_succeeds:
  "\<not> copyFails lib src i \<Longrightarrow>
   \<exists>d bs. extractPage lib src i = Some d \<and> save lib d = Some bs \<and>
     processPage lib src i = \<lparr>pageNumber = i + 1, finalSize = length bs, status = OK, blob = Some bs\<rparr>"
  by (auto simp: copyFails_def processPage_def tryBlock_def split: option.splits)

lemma status_processPage: "status (processPage lib src i) = OK \<or> status (processPage lib src i) = ERROR"
  by (auto simp: processPage_def tryBlock_def split: option.splits)

lemma pdfProcessor_load_fails:
  "load lib fileBuffer = None \<Longrightarrow>
   pdfProcessor lib rnd fileBuffer sel =
     ([Progress \<lparr>stage = ANALYZING, overallProgress = 5, processedPages = 0, totalPages = None\<rparr>],
      Threw error_pdf_load)"
  by (simp add: pdfProcessor_def)

lemma pdfProcessor_parse_fails:
  "load lib fileBuffer = Some src \<Longrightarrow> targetIndices sel (getPageCount lib src) = Some (Inl e) \<Longrightarrow>
   pdfProcessor lib rnd fileBuffer sel =
     ([Progress \<lparr>stage = ANALYZING, overallProgress = 5, processedPages = 0, totalPages = None\<rparr>],
      Threw e)"
  by (simp add: pdfProcessor_def)

lemma pdfProcessor_parse_hangs:
  "load lib fileBuffer = Some src \<Longrightarrow> targetIndices sel (getPageCount lib src) = None \<Longrightarrow>
   pdfProcessor lib rnd fileBuffer sel =
     ([Progress \<lparr>stage = ANALYZING, overallProgress = 5, processedPages = 0, totalPages = None\<rparr>],
      Hangs)"
  by (simp add: pdfProcessor_def)

text \<open>A run finishes, or it reports the first snapshot only and yields nothing.\<close>

lemma pdfProcessor_cases:
  obtains
    (finished) src ixs where "load lib fileBuffer = Some src"
      "targetIndices sel (getPageCount lib src) = Some (Inr ixs)"
      "snd (pdfProcessor lib rnd fileBuffer sel) = Finished"
  | (stopped) "snd (pdfProcessor lib rnd fileBuffer sel) \<noteq> Finished"
      "fst (pdfProcessor lib rnd fileBuffer sel) =
         [Progress \<lparr>stage = ANALYZING, overallProgress = 5, processedPages = 0, totalPages = None\<rparr>]"
proof (cases "load lib fileBuffer")
  case None
  from pdfProcessor_load_fails [OF this, of rnd sel] stopped show ?thesis by simp
next
  case (Some src)
  show ?thesis
  proof (cases "targetIndices sel (getPageCount lib src)")
    case None
    from pdfProcessor_parse_hangs [OF Some this, of rnd] stopped show ?thesis by simp
  next
    case (Some r)
    show ?thesis
    proof (cases r)
      case (Inl e)
      with Some have "targetIndices sel (getPageCount lib src) = Some (Inl e)" by simp
      from pdfProcessor_parse_fails [OF \<open>load lib fileBuffer = Some src\<close> this, of rnd] stopped
      show ?thesis by simp
    next
      case (Inr ixs)
      with Some have t: "targetIndices sel (getPageCount lib src) = Some (Inr ixs)" by simp
      from pdfProcessor_completes [OF \<open>load lib fileBuffer = Some src\<close> t, of rnd]
      have "snd (pdfProcessor lib rnd fileBuffer sel) = Finished" by simp
      with \<open>load lib fileBuffer = Some src\<close> t finished show ?thesis by blast
    qed
  qed
qed

lemma outcomes_finished:
  assumes "load lib fileBuffer = Some src"
    and "targetIndices sel (getPageCount lib src) = Some (Inr ixs)"
  shows "outcomes (fst (pdfProcessor lib rnd fileBuffer sel)) = map (processPage lib src) ixs"
  by (simp add: pdfProcessor_completes [OF assms] outcomes_append outcomes_pagesLoop_all)

lemma pageNumbers_all_pages:
  "map pageNumber (map (processPage lib src) (map int [0..<n])) = map int [1..<n + 1]"
proof -
  have "map pageNumber (map (processPage lib src) (map int [0..<n])) = map (\<lambda>k. int k + 1) [0..<n]"
    by (simp add: pageNumber_processPage comp_def)
  also have "\<dots> = map int (map Suc [0..<n])" by (simp add: comp_def)
  also have "\<dots> = map int [1..<n + 1]" by (simp only: map_Suc_upt) simp
  finally show ?thesis .
qed

subsection \<open>Runs without a selection\<close>

text \<open>
  Claim C2. When the file loads into a document of \<open>n\<close> pages and no selection is
  given, the run finishes without throwing and yields exactly \<open>n\<close> results, whose page
  numbers are 1 to \<open>n\<close> in ascending order; the last event of the run, and so the last
  snapshot reported, is the snapshot of stage \<open>DONE\<close> with progress 100 and \<open>n\<close> processed
  pages.
\<close>

theorem all_pages_run:
  assumes "load lib fileBuffer = Some src" and "getPageCount lib src = n"
  shows "snd (pdfProcessor lib rnd fileBuffer None) = Finished \<and>
         length (outcomes (fst (pdfProcessor lib rnd fileBuffer None))) = n \<and>
         map pageNumber (outcomes (fst (pdfProcessor lib rnd fileBuffer None))) = map int [1..<n + 1] \<and>
         last (fst (pdfProcessor lib rnd fileBuffer None)) =
           Progress \<lparr>stage = DONE, overallProgress = 100, processedPages = n, totalPages = None\<rparr> \<and>
         last (snapshots (fst (pdfProcessor lib rnd fileBuffer None))) =
           \<lparr>stage = DONE, overallProgress = 100, processedPages = n, totalPages = None\<rparr>"
proof -
  have t: "targetIndices None (getPageCount lib src) = Some (Inr (map int [0..<n]))"
    by (simp add: targetIndices_def assms(2))
  from pageNumbers_all_pages [of lib src n] show ?thesis
    by (simp add: pdfProcessor_completes [OF assms(1) t] outcomes_append outcomes_pagesLoop_all
        snapshots_append)
qed

theorem all_pages_run_witness:
  "load toyLib [37, 5, 0, 7] = Some [5, 0, 7] \<and> getPageCount toyLib [5, 0, 7] = 3 \<and>
   snd (pdfProcessor toyLib id [37, 5, 0, 7] None) = Finished \<and>
   length (outcomes (fst (pdfProcessor toyLib id [37, 5, 0, 7] None))) = 3 \<and>
   map pageNumber (outcomes (fst (pdfProcessor toyLib id [37, 5, 0, 7] None))) = [1, 2, 3] \<and>
   last (fst (pdfProcessor toyLib id [37, 5, 0, 7] None)) =
     Progress \<lparr>stage = DONE, overallProgress = 100, processedPages = 3, totalPages = None\<rparr> \<and>
   last (snapshots (fst (pdfProcessor toyLib id [37, 5, 0, 7] None))) =
     \<lparr>stage = DONE, overallProgress = 100, processedPages = 3, totalPages = None\<rparr>"
proof -
  have h: "load toyLib [37, 5, 0, 7] = Some [5, 0, 7]" "getPageCount toyLib [5, 0, 7] = 3"
    by (simp_all add: toyLib_def)
  have "map int [1..<3 + 1] = [1, 2, 3]" by (simp add: upt_conv_Cons)
  with all_pages_run [OF h, of id] h show ?thesis by simp
qed

text \<open>
  Claim C10. When the file loads into a document without pages and no selection is given,
  the run yields no result and finishes without throwing. It reports three snapshots: the
  one of stage \<open>ANALYZING\<close>, the one of stage \<open>SPLITTING\<close> with 0 pages to process, and the
  one of stage \<open>DONE\<close> with progress 100 and 0 processed pages.
\<close>

theorem zero_pages_run:
  assumes "load lib fileBuffer = Some src" and "getPageCount lib src = 0"
  shows "pdfProcessor lib rnd fileBuffer None =
     ([Progress \<lparr>stage = ANALYZING, overallProgress = 5, processedPages = 0, totalPages = None\<rparr>,
       Progress \<lparr>stage = SPLITTING, overallProgress = 10, processedPages = 0, totalPages = Some 0\<rparr>,
       Progress \<lparr>stage = DONE, overallProgress = 100, processedPages = 0, totalPages = None\<rparr>],
      Finished) \<and> outcomes (fst (pdfProcessor lib rnd fileBuffer None)) = []"
proof -
  have t: "targetIndices None (getPageCount lib src) = Some (Inr [])"
    by (simp add: targetIndices_def assms(2))
  show ?thesis
    by (simp add: pdfProcessor_completes [OF assms(1) t] pagesLoop_done)
qed

theorem zero_pages_run_witness:
  "load toyLib [37] = Some [] \<and> getPageCount toyLib [] = 0 \<and>
   pdfProcessor toyLib id [37] None =
     ([Progress \<lparr>stage = ANALYZING, overallProgress = 5, processedPages = 0, totalPages = None\<rparr>,
       Progress \<lparr>stage = SPLITTING, overallProgress = 10, processedPages = 0, totalPages = Some 0\<rparr>,
       Progress \<lparr>stage = DONE, overallProgress = 100, processedPages = 0, totalPages = None\<rparr>],
      Finished)"
proof -
  have h: "load toyLib [37] = Some []" "getPageCount toyLib [] = 0"
    by (simp_all add: toyLib_def)
  from zero_pages_run [OF h, of id] h show ?thesis by simp
qed

subsection \<open>A page that fails\<close>

text \<open>
  Claim C3. In a run whose file loads and whose target pages are resolved, nothing is
  thrown and one result is yielded for each target page, in order, carrying the number of
  that page. For a target page whose copy or serialisation fails, the result has status
  \<open>ERROR\<close>, size 0 and no blob; for every other target page the result has status
  \<open>OK\<close>.
\<close>

theorem page_failure_isolated:
  assumes "load lib fileBuffer = Some src"
    and "targetIndices sel (getPageCount lib src) = Some (Inr ixs)"
  shows "snd (pdfProcessor lib rnd fileBuffer sel) = Finished \<and>
         length (outcomes (fst (pdfProcessor lib rnd fileBuffer sel))) = length ixs \<and>
         (\<forall>k < length ixs.
            pageNumber (outcomes (fst (pdfProcessor lib rnd fileBuffer sel)) ! k) = ixs ! k + 1 \<and>
            (copyFails lib src (ixs ! k) \<longrightarrow>
               outcomes (fst (pdfProcessor lib rnd fileBuffer sel)) ! k =
                 \<lparr>pageNumber = ixs ! k + 1, finalSize = 0, status = ERROR, blob = None\<rparr>) \<and>
            (\<not> copyFails lib src (ixs ! k) \<longrightarrow>
               status (outcomes (fst (pdfProcessor lib rnd fileBuffer sel)) ! k) = OK))"
proof -
  have o: "outcomes (fst (pdfProcessor lib rnd fileBuffer sel)) = map (processPage lib src) ixs"
    by (rule outcomes_finished [OF assms])
  have t: "snd (pdfProcessor lib rnd fileBuffer sel) = Finished"
    by (simp add: pdfProcessor_completes [OF assms])
  have "status (processPage lib src i) = OK" if "\<not> copyFails lib src i" for i
    using processPage_succeeds [OF that] by auto
  with t show ?thesis
    unfolding o by (simp add: pageNumber_processPage processPage_fails)
qed

theorem page_failure_isolated_witness:
  "load toyLib [37, 5, 0, 7] = Some [5, 0, 7] \<and>
   targetIndices (Some (js ''1-3'')) (getPageCount toyLib [5, 0, 7]) = Some (Inr [0, 1, 2]) \<and>
   copyFails toyLib [5, 0, 7] 1 \<and>
   snd (pdfProcessor toyLib id [37, 5, 0, 7] (Some (js ''1-3''))) = Finished \<and>
   length (outcomes (fst (pdfProcessor toyLib id [37, 5, 0, 7] (Some (js ''1-3''))))) = 3 \<and>
   outcomes (fst (pdfProcessor toyLib id [37, 5, 0, 7] (Some (js ''1-3'')))) ! 1 =
     \<lparr>pageNumber = 2, finalSize = 0, status = ERROR, blob = None\<rparr> \<and>
   status (outcomes (fst (pdfProcessor toyLib id [37, 5, 0, 7] (Some (js ''1-3'')))) ! 2) = OK"
proof -
  have h: "load toyLib [37, 5, 0, 7] = Some [5, 0, 7]"
    "targetIndices (Some (js ''1-3'')) (getPageCount toyLib [5, 0, 7]) = Some (Inr [0, 1, 2])"
    by (simp_all add: pipeline_eval parser_eval)
  have c: "copyFails toyLib [5, 0, 7] 1" "\<not> copyFails toyLib [5, 0, 7] 2"
    by (simp_all add: pipeline_eval)
  from page_failure_isolated [OF h, of id] have
    "\<forall>k<3. pageNumber (outcomes (fst (pdfProcessor toyLib id [37, 5, 0, 7] (Some (js ''1-3'')))) ! k) =
              [0, 1, 2] ! k + 1 \<and>
       (copyFails toyLib [5, 0, 7] ([0, 1, 2] ! k) \<longrightarrow>
          outcomes (fst (pdfProcessor toyLib id [37, 5, 0, 7] (Some (js ''1-3'')))) ! k =
            \<lparr>pageNumber = [0, 1, 2] ! k + 1, finalSize = 0, status = ERROR, blob = None\<rparr>) \<and>
       (\<not> copyFails toyLib [5, 0, 7] ([0, 1, 2] ! k) \<longrightarrow>
          status (outcomes (fst (pdfProcessor toyLib id [37, 5, 0, 7] (Some (js ''1-3'')))) ! k) = OK)"
    and s: "snd (pdfProcessor toyLib id [37, 5, 0, 7] (Some (js ''1-3''))) = Finished"
    and l: "length (outcomes (fst (pdfProcessor toyLib id [37, 5, 0, 7] (Some (js ''1-3''))))) = 3"
    by simp_all
  then have
    "copyFails toyLib [5, 0, 7] 1 \<longrightarrow>
       outcomes (fst (pdfProcessor toyLib id [37, 5, 0, 7] (Some (js ''1-3'')))) ! 1 =
         \<lparr>pageNumber = 2, finalSize = 0, status = ERROR, blob = None\<rparr>"
    "\<not> copyFails toyLib [5, 0, 7] 2 \<longrightarrow>
       status (outcomes (fst (pdfProcessor toyLib id [37, 5, 0, 7] (Some (js ''1-3'')))) ! 2) = OK"
    by (auto dest: spec [of _ 1] spec [of _ 2])
  with c h s l show ?thesis by simp
qed

subsection \<open>The status of a result\<close>

text \<open>
  Claim C8. Every result yielded by a run, whatever the engine, the file and the selection,
  has status \<open>OK\<close> or \<open>ERROR\<close>, never \<open>PROCESSING\<close>, the value the local variable
  holds when the processing of a page starts.
\<close>

theorem yielded_status_terminal:
  "\<forall>r \<in> set (outcomes (fst (pdfProcessor lib rnd fileBuffer sel))).
     (status r = OK \<or> status r = ERROR) \<and> status r \<noteq> PROCESSING"
proof (cases rule: pdfProcessor_cases [of lib fileBuffer sel rnd])
  case (finished src ixs)
  have "outcomes (fst (pdfProcessor lib rnd fileBuffer sel)) = map (processPage lib src) ixs"
    by (rule outcomes_finished [OF finished(1,2)])
  moreover have "(status (processPage lib src i) = OK \<or> status (processPage lib src i) = ERROR) \<and>
      status (processPage lib src i) \<noteq> PROCESSING" for i
    using status_processPage [of lib src i] by auto
  ultimately show ?thesis by auto
next
  case stopped
  then show ?thesis by simp
qed

theorem yielded_status_terminal_witness:
  "map status (outcomes (fst (pdfProcessor toyLib id [37, 5, 0, 7] None))) = [OK, ERROR, OK] \<and>
   PROCESSING \<notin> set (map status (outcomes (fst (pdfProcessor toyLib id [37, 5, 0, 7] None))))"
proof -
  have m: "map status (outcomes (fst (pdfProcessor toyLib id [37, 5, 0, 7] None))) = [OK, ERROR, OK]"
    by (simp add: pipeline_eval upt_conv_Cons)
  from yielded_status_terminal [of toyLib id "[37, 5, 0, 7]" None] m show ?thesis by auto
qed

subsection \<open>Errors of the whole request\<close>

text \<open>
  Claim C5 as stated fails at the empty string. A selection that is given but empty is not
  parsed: the pipeline treats it as absent and extracts every page, although
  \<open>parsePageRanges\<close> fails on the empty string.
\<close>

theorem empty_selection_counterexample:
  "parsePageRanges [] (int (getPageCount toyLib [5, 0, 7])) = Some (Inl error_pageSelection_empty) \<and>
   load toyLib [37, 5, 0, 7] = Some [5, 0, 7] \<and>
   snd (pdfProcessor toyLib id [37, 5, 0, 7] (Some [])) = Finished \<and>
   map pageNumber (outcomes (fst (pdfProcessor toyLib id [37, 5, 0, 7] (Some [])))) = [1, 2, 3]"
  by (simp add: pipeline_eval parsePageRanges_def upt_conv_Cons)

lemma targetIndices_empty: "targetIndices (Some []) n = targetIndices None n"
  by (simp add: targetIndices_def)

lemma pdfProcessor_empty:
  "pdfProcessor lib rnd fileBuffer (Some []) = pdfProcessor lib rnd fileBuffer None"
  unfolding pdfProcessor_def targetIndices_empty by (rule refl)

text \<open>
  Claim C5, amended. When the file does not load, the run reports the first snapshot and
  throws the error of a failed load. When the file loads and a selection that is not the
  empty string is given and fails to parse, the run reports the first snapshot and throws
  the error of the parser, unchanged. A run that does not finish yields no result. A
  selection that is the empty string is treated as no selection: the run is the run without
  a selection, and when the file loads it finishes without throwing and yields one result
  for every page of the document, numbered from 1 to the page count.
\<close>

theorem request_errors_abort:
  "(load lib fileBuffer = None \<longrightarrow>
      pdfProcessor lib rnd fileBuffer sel =
        ([Progress \<lparr>stage = ANALYZING, overallProgress = 5, processedPages = 0, totalPages = None\<rparr>],
         Threw error_pdf_load)) \<and>
   (\<forall>src selection e.
      load lib fileBuffer = Some src \<and> sel = Some selection \<and> selection \<noteq> [] \<and>
      parsePageRanges selection (int (getPageCount lib src)) = Some (Inl e) \<longrightarrow>
      pdfProcessor lib rnd fileBuffer sel =
        ([Progress \<lparr>stage = ANALYZING, overallProgress = 5, processedPages = 0, totalPages = None\<rparr>],
         Threw e)) \<and>
   (snd (pdfProcessor lib rnd fileBuffer sel) \<noteq> Finished \<longrightarrow>
      outcomes (fst (pdfProcessor lib rnd fileBuffer sel)) = []) \<and>
   pdfProcessor lib rnd fileBuffer (Some []) = pdfProcessor lib rnd fileBuffer None \<and>
   (\<forall>src. load lib fileBuffer = Some src \<longrightarrow>
      snd (pdfProcessor lib rnd fileBuffer (Some [])) = Finished \<and>
      map pageNumber (outcomes (fst (pdfProcessor lib rnd fileBuffer (Some [])))) =
        map int [1..<getPageCount lib src + 1])"
proof (intro conjI allI impI)
  assume "load lib fileBuffer = None"
  then show "pdfProcessor lib rnd fileBuffer sel =
      ([Progress \<lparr>stage = ANALYZING, overallProgress = 5, processedPages = 0, totalPages = None\<rparr>],
       Threw error_pdf_load)"
    by (rule pdfProcessor_load_fails)
next
  fix src selection e
  assume a: "load lib fileBuffer = Some src \<and> sel = Some selection \<and> selection \<noteq> [] \<and>
      parsePageRanges selection (int (getPageCount lib src)) = Some (Inl e)"
  then have "targetIndices sel (getPageCount lib src) = Some (Inl e)"
    by (simp add: targetIndices_def)
  with a show "pdfProcessor lib rnd fileBuffer sel =
      ([Progress \<lparr>stage = ANALYZING, overallProgress = 5, processedPages = 0, totalPages = None\<rparr>],
       Threw e)"
    by (simp add: pdfProcessor_parse_fails)
next
  assume n: "snd (pdfProcessor lib rnd fileBuffer sel) \<noteq> Finished"
  show "outcomes (fst (pdfProcessor lib rnd fileBuffer sel)) = []"
  proof (cases rule: pdfProcessor_cases [of lib fileBuffer sel rnd])
    case (finished src ixs)
    with n show ?thesis by simp
  next
    case stopped
    then show ?thesis by simp
  qed
next
  show "pdfProcessor lib rnd fileBuffer (Some []) = pdfProcessor lib rnd fileBuffer None"
    by (rule pdfProcessor_empty)
next
  fix src
  assume l: "load lib fileBuffer = Some src"
  have t: "targetIndices (Some []) (getPageCount lib src) =
      Some (Inr (map int [0..<getPageCount lib src]))"
    by (simp add: targetIndices_def)
  from pdfProcessor_completes [OF l t, of rnd]
  show "snd (pdfProcessor lib rnd fileBuffer (Some [])) = Finished" by simp
  from outcomes_finished [OF l t, of rnd] pageNumbers_all_pages [of lib src "getPageCount lib src"]
  show "map pageNumber (outcomes (fst (pdfProcessor lib rnd fileBuffer (Some [])))) =
      map int [1..<getPageCount lib src + 1]"
    by simp
qed

theorem request_errors_abort_witness:
  "load toyLib [36] = None \<and>
   pdfProcessor toyLib id [36] None =
     ([Progress \<lparr>stage = ANALYZING, overallProgress = 5, processedPages = 0, totalPages = None\<rparr>],
      Threw error_pdf_load) \<and>
   load toyLib [37, 5, 0, 7] = Some [5, 0, 7] \<and> js ''9'' \<noteq> [] \<and>
   parsePageRanges (js ''9'') (int (getPageCount toyLib [5, 0, 7])) =
     Some (Inl error_pageSelection_outOfBounds) \<and>
   pdfProcessor toyLib id [37, 5, 0, 7] (Some (js ''9'')) =
     ([Progress \<lparr>stage = ANALYZING, overallProgress = 5, processedPages = 0, totalPages = None\<rparr>],
      Threw error_pageSelection_outOfBounds) \<and>
   outcomes (fst (pdfProcessor toyLib id [37, 5, 0, 7] (Some (js ''9'')))) = [] \<and>
   pdfProcessor toyLib id [37, 5, 0, 7] (Some []) = pdfProcessor toyLib id [37, 5, 0, 7] None \<and>
   snd (pdfProcessor toyLib id [37, 5, 0, 7] (Some [])) = Finished \<and>
   map pageNumber (outcomes (fst (pdfProcessor toyLib id [37, 5, 0, 7] (Some [])))) = [1, 2, 3]"
proof -
  have h: "load toyLib [36] = None" "load toyLib [37, 5, 0, 7] = Some [5, 0, 7]" "js ''9'' \<noteq> []"
    "parsePageRanges (js ''9'') (int (getPageCount toyLib [5, 0, 7])) =
       Some (Inl error_pageSelection_outOfBounds)"
    by (simp_all add: toyLib_def parser_eval)
  have n: "map int [1..<getPageCount toyLib [5, 0, 7] + 1] = [1, 2, 3]"
    by (simp add: toyLib_def upt_conv_Cons)
  from request_errors_abort [of toyLib "[36]" id None]
    request_errors_abort [of toyLib "[37, 5, 0, 7]" id "Some (js ''9'')"] h n
  show ?thesis by auto
qed

subsection \<open>Progress values\<close>











end
